theory Spec2Isabelle
  imports Complex_Main "HOL-Library.Word" "HOL-Library.Product_Lexorder"
begin

unbundle bit_operations_syntax

section \<open>Burned-in text redaction for DICOM images: the embedding\<close>

text \<open>
  The development follows \<^verbatim>\<open>redact_phi.py\<close>. Python's unbounded integers are \<open>int\<close>,
  unsigned image samples that are stored back into an image are \<open>nat\<close> or \<open>8 word\<close>
  (a \<^verbatim>\<open>uint8\<close> array), and the \<^verbatim>\<open>float64\<close> values of the window arithmetic are exact
  rationals (\<open>rat\<close>): every float operation is read as the exact operation on the
  values it is given. A two-dimensional array is a list of rows. Library calls
  whose code is not part of the program (the CLAHE filter, the luma conversion, the
  modality and VOI transform of the DICOM library) are parameters of the functions that
  call them.
\<close>

subsection \<open>Errors\<close>

text \<open>
  \<open>IndexError\<close>: reading element 0 of an empty sequence. \<open>ValueError\<close>: the minimum or
  maximum of an array without elements. \<open>Cv2Error\<close>: a colour conversion applied to an
  array that has no channel axis. \<open>DivideByZero\<close>: an array is divided by the scalar zero;
  numpy raises nothing there, it warns and produces \<^verbatim>\<open>nan\<close> or \<^verbatim>\<open>inf\<close>, whose conversion
  to \<^verbatim>\<open>uint8\<close> has no defined value, so the model stops with this error instead of
  inventing pixel values.
\<close>

datatype error = IndexError | ValueError | Cv2Error | DivideByZero

subsection \<open>Numeric helpers\<close>

definition trunc :: "rat \<Rightarrow> int" where
  \<comment> \<open>conversion of a float to an integer: towards zero\<close>
  "trunc q = (if q < 0 then \<lceil>q\<rceil> else \<lfloor>q\<rfloor>)"

definition astype_uint8 :: "rat \<Rightarrow> 8 word" where
  \<comment> \<open>\<^verbatim>\<open>.astype(np.uint8)\<close> of a float: truncate, keep the low eight bits\<close>
  "astype_uint8 q = word_of_int (trunc q)"

definition np_clip :: "rat \<Rightarrow> rat \<Rightarrow> rat \<Rightarrow> rat" where
  \<comment> \<open>\<^verbatim>\<open>np.clip(v, lower, upper)\<close> is \<^verbatim>\<open>minimum(maximum(v, lower), upper)\<close>\<close>
  "np_clip v lower upper = min (max v lower) upper"

definition np_min :: "'a::linorder list list \<Rightarrow> error + 'a" where
  "np_min arr = (case concat arr of [] \<Rightarrow> Inl ValueError | v # vs \<Rightarrow> Inr (fold min vs v))"

definition np_max :: "'a::linorder list list \<Rightarrow> error + 'a" where
  "np_max arr = (case concat arr of [] \<Rightarrow> Inl ValueError | v # vs \<Rightarrow> Inr (fold max vs v))"

definition bitwise_not :: "8 word list list \<Rightarrow> 8 word list list" where
  \<comment> \<open>\<^verbatim>\<open>cv2.bitwise_not\<close> on a \<^verbatim>\<open>uint8\<close> image\<close>
  "bitwise_not img = map (map (\<lambda>v. NOT v)) img"

subsection \<open>Frame selection (lines 36 to 62)\<close>











subsection \<open>Window centre and width from the metadata\<close>

datatype tag_value = Single rat | Multi "rat list"

fun first_value :: "tag_value option \<Rightarrow> error + rat option" where
  \<comment> \<open>\<^verbatim>\<open>ds.get(tag)\<close>, then element 0 when the value is a list, a tuple or a MultiValue\<close>
  "first_value None = Inr None"
| "first_value (Some (Single v)) = Inr (Some v)"
| "first_value (Some (Multi [])) = Inl IndexError"
| "first_value (Some (Multi (v # _))) = Inr (Some v)"

definition data_window :: "rat list list \<Rightarrow> error + (rat \<times> rat)" where
  \<comment> \<open>lines 92 to 95: the window derived from the data\<close>
  "data_window pixel_array =
     (case np_min pixel_array of
        Inl e \<Rightarrow> Inl e
      | Inr min_val \<Rightarrow>
          (case np_max pixel_array of
             Inl e \<Rightarrow> Inl e
           | Inr max_val \<Rightarrow>
               Inr ((min_val + max_val) / 2,
                    if max_val > min_val then max_val - min_val else 1)))"

definition window_standard ::
  "tag_value option \<Rightarrow> tag_value option \<Rightarrow> rat list list \<Rightarrow> error + (rat \<times> rat)" where
  \<comment> \<open>lines 83 to 99: centre and width in standard mode\<close>
  "window_standard wc_tag ww_tag pixel_array =
     (case first_value wc_tag of
        Inl e \<Rightarrow> Inl e
      | Inr window_center \<Rightarrow>
          (case first_value ww_tag of
             Inl e \<Rightarrow> Inl e
           | Inr window_width \<Rightarrow>
               (case (window_center, window_width) of
                  (Some c, Some w) \<Rightarrow> Inr (c, w)
                | _ \<Rightarrow> data_window pixel_array)))"

definition window_clahe ::
  "tag_value option \<Rightarrow> tag_value option \<Rightarrow> int \<Rightarrow> error + (rat \<times> rat)" where
  \<comment> \<open>lines 146 to 183: centre and width in CLAHE mode\<close>
  "window_clahe wc_tag ww_tag original_bits_stored =
     (case first_value wc_tag of
        Inl e \<Rightarrow> Inl e
      | Inr window_center \<Rightarrow>
          (case first_value ww_tag of
             Inl e \<Rightarrow> Inl e
           | Inr window_width \<Rightarrow>
               (case (window_center, window_width) of
                  (Some c, Some w) \<Rightarrow>
                    if original_bits_stored > 8 then Inr (128, 256) else Inr (c, w)
                | _ \<Rightarrow> Inr (128, 256))))"

subsection \<open>Windowing an array to eight bits\<close>

definition rescale_sample :: "rat \<Rightarrow> rat \<Rightarrow> rat \<Rightarrow> 8 word" where
  \<comment> \<open>\<^verbatim>\<open>((v - lower) / (upper - lower) * 255.0).astype(np.uint8)\<close> for one sample\<close>
  "rescale_sample lower upper v = astype_uint8 ((v - lower) / (upper - lower) * 255)"

definition rescale_255 :: "rat \<Rightarrow> rat \<Rightarrow> rat list list \<Rightarrow> error + 8 word list list" where
  "rescale_255 lower upper arr =
     (if upper - lower = 0 \<and> concat arr \<noteq> [] then Inl DivideByZero
      else Inr (map (map (rescale_sample lower upper)) arr))"

definition window_bounds :: "rat \<times> rat \<Rightarrow> rat \<times> rat" where
  \<comment> \<open>lines 101 to 102 and 185 to 186: \<^verbatim>\<open>lower\<close> and \<^verbatim>\<open>upper\<close>\<close>
  "window_bounds cw =
     (case cw of (window_center, window_width) \<Rightarrow>
        (window_center - window_width / 2, window_center + window_width / 2))"

definition apply_window :: "rat \<times> rat \<Rightarrow> rat list list \<Rightarrow> error + 8 word list list" where
  \<comment> \<open>lines 101 to 106 and 185 to 193\<close>
  "apply_window cw arr =
     (case window_bounds cw of (lower, upper) \<Rightarrow>
        let windowed = map (map (\<lambda>v. np_clip v lower upper)) arr
        in rescale_255 lower upper windowed)"


definition photometric :: "string option \<Rightarrow> 8 word list list \<Rightarrow> 8 word list list" where
  \<comment> \<open>lines 109 to 110 and 196 to 197\<close>
  "photometric interpretation img =
     (if interpretation = Some ''MONOCHROME1'' then bitwise_not img else img)"

subsection \<open>Standard window/level (lines 70 to 116)\<close>

definition to_float :: "int list list \<Rightarrow> rat list list" where
  "to_float arr = map (map of_int) arr"

definition voi_raises :: "int list list \<Rightarrow> rat list list option" where
  \<comment> \<open>an instance of the parameter \<open>apply_voi_lut\<close> for closed examples: the call raises\<close>
  "voi_raises arr = None"

definition standard_windowed ::
  "(int list list \<Rightarrow> rat list list option) \<Rightarrow> int \<Rightarrow> int list list \<Rightarrow>
   tag_value option \<Rightarrow> tag_value option \<Rightarrow> error + 8 word list list" where
  \<comment> \<open>\<^verbatim>\<open>image_8bit\<close> before the photometric step. \<open>apply_voi_lut\<close> is the DICOM library's
      transform on this dataset; \<open>None\<close> is an exception, which line 77 catches. Line 65
      takes the minimum of the array and so fails on an array without elements.\<close>
  "standard_windowed apply_voi_lut samples_per_pixel pixel_array wc_tag ww_tag =
     (if concat pixel_array = [] then Inl ValueError
      else
        let pa = (if samples_per_pixel = 1 then
                    (case apply_voi_lut pixel_array of
                       Some lut \<Rightarrow> lut
                     | None \<Rightarrow> to_float pixel_array)
                  else to_float pixel_array)
        in (case window_standard wc_tag ww_tag pa of
              Inl e \<Rightarrow> Inl e
            | Inr cw \<Rightarrow> apply_window cw pa))"

definition standard_mode ::
  "(int list list \<Rightarrow> rat list list option) \<Rightarrow> int \<Rightarrow> int list list \<Rightarrow>
   tag_value option \<Rightarrow> tag_value option \<Rightarrow> string option \<Rightarrow> error + 8 word list list" where
  \<comment> \<open>\<^verbatim>\<open>image_8bit\<close>, which is also \<^verbatim>\<open>enhanced_stretched\<close> in this mode\<close>
  "standard_mode apply_voi_lut samples_per_pixel pixel_array wc_tag ww_tag interpretation =
     (case standard_windowed apply_voi_lut samples_per_pixel pixel_array wc_tag ww_tag of
        Inl e \<Rightarrow> Inl e
      | Inr image_8bit \<Rightarrow> Inr (photometric interpretation image_8bit))"

subsection \<open>CLAHE mode (lines 118 to 219)\<close>

text \<open>
  The sample type of the decoded array is unsigned (Pixel Representation 0), so the
  differences \<^verbatim>\<open>pixel_array - min_val\<close> and \<^verbatim>\<open>max_val - min_val\<close> do not wrap around
  in the array's own integer type.
\<close>

datatype dtype = UInt8 | UInt16

definition from_uint8 :: "8 word list list \<Rightarrow> rat list list" where
  "from_uint8 arr = map (map (\<lambda>v. of_nat (unat v))) arr"

definition to_uint8 :: "dtype \<Rightarrow> int list list \<Rightarrow> error + 8 word list list" where
  \<comment> \<open>lines 123 to 130\<close>
  "to_uint8 dt pixel_array =
     (if dt \<noteq> UInt8 then
        (case np_min pixel_array of
           Inl e \<Rightarrow> Inl e
         | Inr min_val \<Rightarrow>
             (case np_max pixel_array of
                Inl e \<Rightarrow> Inl e
              | Inr max_val \<Rightarrow>
                  if max_val > min_val then
                    Inr (map (map (\<lambda>p. astype_uint8
                           (of_int (p - min_val) / of_int (max_val - min_val) * 255)))
                         pixel_array)
                  else Inr (map (map word_of_int) pixel_array)))
      else Inr (map (map word_of_int) pixel_array))"

definition stretch :: "8 word list list \<Rightarrow> error + 8 word list list" where
  \<comment> \<open>lines 214 to 219\<close>
  "stretch enhanced =
     (case np_min enhanced of
        Inl e \<Rightarrow> Inl e
      | Inr min_val \<Rightarrow>
          (case np_max enhanced of
             Inl e \<Rightarrow> Inl e
           | Inr max_val \<Rightarrow>
               if max_val > min_val then
                 Inr (map (map (\<lambda>p. astype_uint8
                        (of_nat (unat (p - min_val)) / of_nat (unat (max_val - min_val)) * 255)))
                      enhanced)
               else Inr enhanced))"

definition clahe_windowed ::
  "(8 word list list \<Rightarrow> 8 word list list) \<Rightarrow> dtype \<Rightarrow> int list list \<Rightarrow>
   tag_value option \<Rightarrow> tag_value option \<Rightarrow> int \<Rightarrow> error + 8 word list list" where
  \<comment> \<open>\<^verbatim>\<open>normalized\<close> before the photometric step. \<open>clahe\<close> is the library's filter; lines 65
      and 138 take a minimum and so fail on an array without elements.\<close>
  "clahe_windowed clahe dt pixel_array wc_tag ww_tag original_bits_stored =
     (if concat pixel_array = [] then Inl ValueError
      else
        (case to_uint8 dt pixel_array of
           Inl e \<Rightarrow> Inl e
         | Inr pa8 \<Rightarrow>
             let clahe_applied = clahe pa8
             in if concat clahe_applied = [] then Inl ValueError
                else
                  (case window_clahe wc_tag ww_tag original_bits_stored of
                     Inl e \<Rightarrow> Inl e
                   | Inr cw \<Rightarrow> apply_window cw (from_uint8 clahe_applied))))"

definition clahe_normalized ::
  "(8 word list list \<Rightarrow> 8 word list list) \<Rightarrow> dtype \<Rightarrow> int list list \<Rightarrow>
   tag_value option \<Rightarrow> tag_value option \<Rightarrow> int \<Rightarrow> string option \<Rightarrow>
   error + 8 word list list" where
  \<comment> \<open>\<^verbatim>\<open>normalized\<close>: the output raster of a grayscale input\<close>
  "clahe_normalized clahe dt pixel_array wc_tag ww_tag original_bits_stored interpretation =
     (case clahe_windowed clahe dt pixel_array wc_tag ww_tag original_bits_stored of
        Inl e \<Rightarrow> Inl e
      | Inr windowed_8bit \<Rightarrow> Inr (photometric interpretation windowed_8bit))"

definition clahe_mode ::
  "(8 word list list \<Rightarrow> 8 word list list) \<Rightarrow> dtype \<Rightarrow> int list list \<Rightarrow>
   tag_value option \<Rightarrow> tag_value option \<Rightarrow> int \<Rightarrow> string option \<Rightarrow>
   error + (8 word list list \<times> 8 word list list)" where
  \<comment> \<open>returns \<^verbatim>\<open>normalized\<close> and \<^verbatim>\<open>enhanced_stretched\<close> (the detection raster)\<close>
  "clahe_mode clahe dt pixel_array wc_tag ww_tag original_bits_stored interpretation =
     (case clahe_normalized clahe dt pixel_array wc_tag ww_tag original_bits_stored
             interpretation of
        Inl e \<Rightarrow> Inl e
      | Inr normalized \<Rightarrow>
          let enhanced = clahe normalized
          in (case stretch enhanced of
                Inl e \<Rightarrow> Inl e
              | Inr enhanced_stretched \<Rightarrow> Inr (normalized, enhanced_stretched)))"

subsection \<open>Detections and the extracted text (lines 274 to 284)\<close>

text \<open>
  A detection is a triple of a bounding polygon, the recognised text and a confidence.
  The polygon is \<^verbatim>\<open>None\<close>, a list of points, or a value that is neither a list nor a
  tuple. Texts are ASCII strings; the white space that \<^verbatim>\<open>str.strip\<close> removes is then the
  characters 9 to 13, 28 to 31 and 32.
\<close>

datatype bbox = NoBox | Points "(rat \<times> rat) list" | NotAList

type_synonym detection = "bbox \<times> string \<times> rat"

definition is_space :: "char \<Rightarrow> bool" where
  "is_space c = (let n = (of_char c :: nat) in (9 \<le> n \<and> n \<le> 13) \<or> (28 \<le> n \<and> n \<le> 32))"

definition strip :: "string \<Rightarrow> string" where
  "strip text = rev (dropWhile is_space (rev (dropWhile is_space text)))"

fun join :: "string \<Rightarrow> string list \<Rightarrow> string" where
  "join sep [] = []"
| "join sep [t] = t"
| "join sep (t # ts) = t @ sep @ join sep ts"

definition extracted_text :: "detection list option \<Rightarrow> string" where
  \<comment> \<open>\<^verbatim>\<open>if primary_detections:\<close> is false for \<^verbatim>\<open>None\<close> and for the empty list\<close>
  "extracted_text primary_detections =
     (let all_text = (case primary_detections of
                        None \<Rightarrow> []
                      | Some ds \<Rightarrow>
                          map (\<lambda>(bbox, text, conf). text)
                            (filter (\<lambda>(bbox, text, conf). strip text \<noteq> []) ds))
      in if all_text \<noteq> [] then join '' '' all_text else ''(No text detected)'')"

subsection \<open>Merging boxes (lines 381 to 425)\<close>

type_synonym box = "int \<times> int \<times> int \<times> int"

fun near :: "int \<Rightarrow> box \<Rightarrow> box \<Rightarrow> bool" where
  \<comment> \<open>the test of lines 411 and 412\<close>
  "near margin (x, y, w, h) (mx, my, mw, mh) =
     (let x2 = x + w; y2 = y + h; mx2 = mx + mw; my2 = my + mh
      in x \<le> mx2 + margin \<and> x2 \<ge> mx - margin \<and> y \<le> my2 + margin \<and> y2 \<ge> my - margin)"

fun merge_pair :: "box \<Rightarrow> box \<Rightarrow> box" where
  \<comment> \<open>lines 414 to 418\<close>
  "merge_pair (x, y, w, h) (mx, my, mw, mh) =
     (let x2 = x + w; y2 = y + h; mx2 = mx + mw; my2 = my + mh;
          new_x = min x mx; new_y = min y my; new_x2 = max x2 mx2; new_y2 = max y2 my2
      in (new_x, new_y, new_x2 - new_x, new_y2 - new_y))"

fun try_merge :: "int \<Rightarrow> box \<Rightarrow> box list \<Rightarrow> box list option" where
  \<comment> \<open>the inner loop: the first box of \<^verbatim>\<open>merged\<close> that is near is replaced, and the loop
      breaks; \<open>None\<close> is \<^verbatim>\<open>merged_into == False\<close>\<close>
  "try_merge margin b [] = None"
| "try_merge margin b (m # ms) =
     (if near margin b m then Some (merge_pair b m # ms)
      else map_option ((#) m) (try_merge margin b ms))"

definition merge_step :: "int \<Rightarrow> box list \<Rightarrow> box \<Rightarrow> box list" where
  "merge_step margin merged b =
     (case try_merge margin b merged of Some ms \<Rightarrow> ms | None \<Rightarrow> merged @ [b])"

definition sorted_boxes :: "box list \<Rightarrow> box list" where
  \<comment> \<open>\<^verbatim>\<open>sorted(boxes, key=lambda b: (b[1], b[0]))\<close>: stable, pairs compared lexicographically\<close>
  "sorted_boxes boxes = sort_key (\<lambda>(x, y, w, h). (y, x)) boxes"

definition merge_overlapping_boxes :: "box list \<Rightarrow> int \<Rightarrow> box list" where
  "merge_overlapping_boxes boxes margin =
     (if boxes = [] then [] else foldl (merge_step margin) [] (sorted_boxes boxes))"

fun box_contains :: "box \<Rightarrow> box \<Rightarrow> bool" where
  \<comment> \<open>the second box lies inside the first\<close>
  "box_contains (mx, my, mw, mh) (x, y, w, h) =
     (mx \<le> x \<and> my \<le> y \<and> x + w \<le> mx + mw \<and> y + h \<le> my + mh)"

definition covers :: "box list \<Rightarrow> box list \<Rightarrow> bool" where
  "covers ms bs = (\<forall>b \<in> set bs. \<exists>m \<in> set ms. box_contains m b)"

subsection \<open>Redaction (lines 335 to 378)\<close>

text \<open>
  A raster is a grayscale image (rows of samples) or a colour image (rows of pixels, a
  pixel being its list of channel samples); samples are unsigned. The rows of an image
  all have the length \<^verbatim>\<open>image.shape[1]\<close>.
\<close>

datatype raster = Gray "nat list list" | Color "nat list list list"

definition np_median :: "nat list \<Rightarrow> rat" where
  \<comment> \<open>the middle element of the sorted values, or the mean of the two middle ones; no
      pixel is written from the value given for the empty list\<close>
  "np_median vs =
     (let s = sort vs; n = length vs
      in if n = 0 then 0
         else if odd n then of_nat (s ! (n div 2))
         else (of_nat (s ! (n div 2 - 1)) + of_nat (s ! (n div 2))) / 2)"

definition gray_median :: "nat list list \<Rightarrow> nat" where
  \<comment> \<open>\<^verbatim>\<open>np.median(image)\<close> as it is stored into the integer image: truncated\<close>
  "gray_median img = nat (trunc (np_median (concat img)))"

definition color_median :: "nat list list list \<Rightarrow> nat list" where
  \<comment> \<open>\<^verbatim>\<open>np.median(image, axis=(0, 1)).astype(image.dtype)\<close>: one median for each channel\<close>
  "color_median img =
     (let pixels = concat img;
          channels = (case pixels of [] \<Rightarrow> 0 | p # _ \<Rightarrow> length p)
      in map (\<lambda>k. nat (trunc (np_median (map (\<lambda>p. p ! k) pixels)))) [0..<channels])"

fun detection_box :: "detection \<Rightarrow> box option" where
  \<comment> \<open>lines 355 to 366 for one detection; \<open>None\<close> when the loop adds no box\<close>
  "detection_box (bbox, text, conf) =
     (if strip text = [] \<or> bbox = NoBox then None
      else
        (case bbox of
           Points pts \<Rightarrow>
             if length pts < 4 then None
             else
               let x_coords = map fst pts; y_coords = map snd pts;
                   x_min = trunc (Min (set x_coords)); x_max = trunc (Max (set x_coords));
                   y_min = trunc (Min (set y_coords)); y_max = trunc (Max (set y_coords));
                   w = x_max - x_min; h = y_max - y_min
               in if w > 0 \<and> h > 0 then Some (x_min, y_min, w, h) else None
         | _ \<Rightarrow> None))"

definition collect_boxes :: "detection list option \<Rightarrow> box list" where
  \<comment> \<open>lines 351 to 366; \<^verbatim>\<open>if detections:\<close> is false for \<^verbatim>\<open>None\<close> and for the empty list\<close>
  "collect_boxes detections =
     (case detections of None \<Rightarrow> [] | Some ds \<Rightarrow> List.map_filter detection_box ds)"

definition slice_index :: "nat \<Rightarrow> int \<Rightarrow> nat" where
  \<comment> \<open>how a slice bound is read on an axis of length \<open>n\<close>: a negative bound counts from
      the end, and the result is clamped to the axis\<close>
  "slice_index n i = (if i < 0 then nat (max 0 (int n + i)) else min (nat i) n)"

definition assign_slice :: "nat \<Rightarrow> nat \<Rightarrow> ('a \<Rightarrow> 'a) \<Rightarrow> 'a list \<Rightarrow> 'a list" where
  \<comment> \<open>the elements at the positions from \<open>start\<close> up to, not including, \<open>stop\<close> are replaced\<close>
  "assign_slice start stop f xs =
     map (\<lambda>(i, v). if start \<le> i \<and> i < stop then f v else v) (enumerate 0 xs)"

definition fill_region :: "'a \<Rightarrow> int \<Rightarrow> int \<Rightarrow> int \<Rightarrow> int \<Rightarrow> 'a list list \<Rightarrow> 'a list list" where
  \<comment> \<open>\<^verbatim>\<open>redacted[y1:y2, x1:x2] = median_val\<close>\<close>
  "fill_region median_val y1 y2 x1 x2 redacted =
     assign_slice (slice_index (length redacted) y1) (slice_index (length redacted) y2)
       (\<lambda>row. assign_slice (slice_index (length row) x1) (slice_index (length row) x2)
                 (\<lambda>_. median_val) row)
       redacted"

definition shape1 :: "'a list list \<Rightarrow> nat" where
  "shape1 img = (case img of [] \<Rightarrow> 0 | row # _ \<Rightarrow> length row)"

fun paint :: "'a \<Rightarrow> int \<Rightarrow> nat \<Rightarrow> nat \<Rightarrow> 'a list list \<Rightarrow> box \<Rightarrow> 'a list list" where
  \<comment> \<open>one round of the loop of lines 371 to 376; the two numbers are \<^verbatim>\<open>image.shape[0]\<close>
      and \<^verbatim>\<open>image.shape[1]\<close>\<close>
  "paint median_val padding rows cols redacted (x, y, w, h) =
     (let x1 = max 0 (x - padding);
          y1 = max 0 (y - padding);
          x2 = min (int cols) (x + w + padding);
          y2 = min (int rows) (y + h + padding)
      in fill_region median_val y1 y2 x1 x2 redacted)"

definition merged_boxes :: "detection list option \<Rightarrow> box list" where
  \<comment> \<open>lines 351 to 369\<close>
  "merged_boxes detections =
     (let boxes = collect_boxes detections
      in if boxes \<noteq> [] then merge_overlapping_boxes boxes 5 else boxes)"

definition paint_all :: "'a \<Rightarrow> int \<Rightarrow> box list \<Rightarrow> 'a list list \<Rightarrow> 'a list list" where
  "paint_all median_val padding boxes img =
     foldl (paint median_val padding (length img) (shape1 img)) img boxes"

fun redact_text_regions :: "raster \<Rightarrow> detection list option \<Rightarrow> int \<Rightarrow> raster" where
  "redact_text_regions (Gray img) detections padding =
     Gray (paint_all (gray_median img) padding (merged_boxes detections) img)"
| "redact_text_regions (Color img) detections padding =
     Color (paint_all (color_median img) padding (merged_boxes detections) img)"

fun median_val :: "raster \<Rightarrow> nat list" where
  \<comment> \<open>the fill colour of a raster, as a list of channel values\<close>
  "median_val (Gray img) = [gray_median img]"
| "median_val (Color img) = color_median img"

definition in_padded_box :: "int \<Rightarrow> box \<Rightarrow> nat \<Rightarrow> nat \<Rightarrow> bool" where
  \<comment> \<open>the pixel in row \<open>r\<close> and column \<open>c\<close> lies in the box grown by the padding\<close>
  "in_padded_box padding b r c =
     (case b of (x, y, w, h) \<Rightarrow>
        x - padding \<le> int c \<and> int c < x + w + padding \<and>
        y - padding \<le> int r \<and> int r < y + h + padding)"

definition written :: "int \<Rightarrow> nat \<Rightarrow> nat \<Rightarrow> nat \<Rightarrow> box \<Rightarrow> nat \<Rightarrow> nat \<Rightarrow> bool" where
  \<comment> \<open>one round of the loop writes the pixel in row \<open>r\<close> and column \<open>c\<close>; \<open>row_len\<close> is the
      length of that row\<close>
  "written padding rows cols row_len b r c =
     (case b of (x, y, w, h) \<Rightarrow>
        slice_index rows (max 0 (y - padding)) \<le> r \<and>
        r < slice_index rows (min (int rows) (y + h + padding)) \<and>
        slice_index row_len (max 0 (x - padding)) \<le> c \<and>
        c < slice_index row_len (min (int cols) (x + w + padding)))"

section \<open>Properties\<close>

subsection \<open>Frame selection\<close>




subsection \<open>The window without metadata\<close>

text \<open>
  C1 does not hold as stated: without window tags CLAHE mode does not derive the window
  from the data. For a CLAHE output with the samples 0 and 10 the data-derived window
  is centre 5 and width 10, but the window used is centre 128 and width 256, and the
  windowed samples are 0 and 9 where the data-derived window would give 0 and 255.
\<close>

theorem clahe_window_is_not_data_derived:
  "window_clahe None None 8 = Inr (128, 256)
   \<and> data_window (from_uint8 [[0, 10]]) = Inr (5, 10)
   \<and> clahe_windowed id UInt8 [[0, 10]] None None 8 = Inr [[0, 9]]
   \<and> apply_window (5, 10) (from_uint8 [[0, 10]]) = Inr [[0, 255]]"
  by code_simp

text \<open>
  C1, as the code has it. In CLAHE mode, when the window centre or the window width is
  absent from the metadata, the window applied to the CLAHE output is the full 8-bit
  range, centre 128 and width 256, whatever the data; only standard mode falls back to
  the window derived from the data.
\<close>

theorem clahe_window_without_tags:
  assumes "wc_tag = None \<or> ww_tag = None"
    and "wc_tag \<noteq> Some (Multi [])" and "ww_tag \<noteq> Some (Multi [])"
  shows "window_clahe wc_tag ww_tag original_bits_stored = Inr (128, 256)
         \<and> window_standard wc_tag ww_tag pixel_array = data_window pixel_array"
proof -
  from assms(2) obtain c where c: "first_value wc_tag = Inr c" "c = None \<longleftrightarrow> wc_tag = None"
    by (cases wc_tag rule: first_value.cases) auto
  from assms(3) obtain w where w: "first_value ww_tag = Inr w" "w = None \<longleftrightarrow> ww_tag = None"
    by (cases ww_tag rule: first_value.cases) auto
  from assms(1) c(2) w(2) have "c = None \<or> w = None" by blast
  then show ?thesis
    using c(1) w(1)
    by (auto simp: window_clahe_def window_standard_def split: option.splits)
qed

theorem clahe_window_without_tags_witness:
  "window_clahe None (Some (Single 100)) 8 = Inr (128, 256)
   \<and> window_standard None (Some (Single 100)) [[0, 10]] = Inr (5, 10)"
  using clahe_window_without_tags [of None "Some (Single 100)" 8 "[[0, 10]]"]
  by (simp add: data_window_def np_min_def np_max_def)

subsection \<open>Rescaling to eight bits\<close>

lemma unat_not_u8: "unat (NOT v) = 255 - unat (v :: 8 word)"
proof -
  have "NOT v = - 1 - v" by (simp add: not_eq_complement)
  moreover have "unat (- 1 - v) = unat (- 1 :: 8 word) - unat v"
    by (rule unat_sub) simp
  ultimately show ?thesis by (simp add: unsigned_minus_1_eq_mask mask_eq_exp_minus_1)
qed




lemma data_window_width_positive: "data_window arr = Inr (c, w) \<Longrightarrow> 0 < w"
  by (auto simp: data_window_def split: sum.splits if_splits)




lemma concat_map_map_Nil: "concat (map (map f) arr) = [] \<longleftrightarrow> concat arr = []"
  by (induction arr) auto

lemma zero_width_window_fails:
  "concat arr \<noteq> [] \<Longrightarrow> apply_window (window_center, 0) arr = Inl DivideByZero"
  by (simp add: apply_window_def window_bounds_def rescale_255_def concat_map_map_Nil)

text \<open>
  C2 fails on the code: with Window Width 0 in the metadata the window has
  \<open>upper = lower\<close>, and the rescale divides every sample by zero
  (\<open>zero_width_window_fails\<close>), in standard mode and (for data of at most 8 bits
  stored) in CLAHE mode. The other rescales are guarded: the data-derived window has a
  positive width (\<open>data_window_width_positive\<close>), and the two min-max rescales run only
  when the maximum exceeds the minimum.
\<close>

theorem zero_window_width_divides_by_zero:
  "window_standard (Some (Single 100)) (Some (Single 0)) (to_float [[5]]) = Inr (100, 0)
   \<and> window_clahe (Some (Single 100)) (Some (Single 0)) 8 = Inr (100, 0)
   \<and> window_bounds (100, 0) = (100, 100)
   \<and> standard_mode voi_raises 1 [[5]] (Some (Single 100)) (Some (Single 0)) None
       = Inl DivideByZero
   \<and> clahe_mode id UInt8 [[5]] (Some (Single 100)) (Some (Single 0)) 8 None
       = Inl DivideByZero"
  by (simp add: standard_mode_def standard_windowed_def voi_raises_def to_float_def
      window_standard_def apply_window_def window_bounds_def rescale_255_def clahe_mode_def
      clahe_normalized_def clahe_windowed_def to_uint8_def window_clahe_def from_uint8_def
      Let_def)

lemma bitwise_not_nth:
  assumes "r < length V" and "c < length (V ! r)"
  shows "length (bitwise_not V) = length V \<and> length (bitwise_not V ! r) = length (V ! r)
         \<and> unat (bitwise_not V ! r ! c) = 255 - unat (V ! r ! c)"
  using assms by (simp add: bitwise_not_def unat_not_u8)

text \<open>
  C10. For a \<^verbatim>\<open>MONOCHROME1\<close> input, at every pixel whose windowed 8-bit value before
  the inversion is \<open>V\<close>, the normalized output is \<open>255 - V\<close>, in standard mode and in
  CLAHE mode.
\<close>

theorem monochrome1_inverts:
  assumes "r < length V" and "c < length (V ! r)"
  shows "(standard_windowed apply_voi_lut samples_per_pixel pixel_array wc_tag ww_tag = Inr V \<longrightarrow>
            (\<exists>out. standard_mode apply_voi_lut samples_per_pixel pixel_array wc_tag ww_tag
                      (Some ''MONOCHROME1'') = Inr out
                  \<and> length out = length V \<and> length (out ! r) = length (V ! r)
                  \<and> unat (out ! r ! c) = 255 - unat (V ! r ! c)))
       \<and> (clahe_windowed clahe dt pixel_array wc_tag ww_tag original_bits_stored = Inr V \<longrightarrow>
            (\<exists>out. clahe_normalized clahe dt pixel_array wc_tag ww_tag original_bits_stored
                      (Some ''MONOCHROME1'') = Inr out
                  \<and> length out = length V \<and> length (out ! r) = length (V ! r)
                  \<and> unat (out ! r ! c) = 255 - unat (V ! r ! c)))"
  using bitwise_not_nth [OF assms]
  by (simp add: standard_mode_def clahe_normalized_def photometric_def)

theorem monochrome1_inverts_witness:
  "standard_windowed voi_raises 1 [[1]] (Some (Single 2)) (Some (Single 4)) = Inr [[63]]
   \<and> (\<exists>out. standard_mode voi_raises 1 [[1]] (Some (Single 2)) (Some (Single 4))
               (Some ''MONOCHROME1'') = Inr out
             \<and> unat (out ! 0 ! 0) = 192)
   \<and> clahe_windowed id UInt8 [[1]] (Some (Single 2)) (Some (Single 4)) 8 = Inr [[63]]
   \<and> (\<exists>out. clahe_normalized id UInt8 [[1]] (Some (Single 2)) (Some (Single 4)) 8
               (Some ''MONOCHROME1'') = Inr out
             \<and> unat (out ! 0 ! 0) = 192)"
proof -
  have a: "standard_windowed voi_raises 1 [[1]] (Some (Single 2)) (Some (Single 4)) = Inr [[63]]"
    by code_simp
  have b: "clahe_windowed id UInt8 [[1]] (Some (Single 2)) (Some (Single 4)) 8 = Inr [[63]]"
    by code_simp
  from monochrome1_inverts [of 0 "[[63]]" 0 voi_raises 1 "[[1]]" "Some (Single 2)"
      "Some (Single 4)" id UInt8 8] a b
  show ?thesis by auto
qed

subsection \<open>Merging boxes\<close>

lemma box_contains_refl: "box_contains b b"
  by (cases b) simp

lemma box_contains_trans:
  "box_contains a b \<Longrightarrow> box_contains b c \<Longrightarrow> box_contains a c"
  by (cases a; cases b; cases c) simp

lemma merge_pair_contains_new: "box_contains (merge_pair b m) b"
  by (cases b; cases m) (simp add: Let_def)

lemma merge_pair_contains_old: "box_contains (merge_pair b m) m"
  by (cases b; cases m) (simp add: Let_def)

lemma try_merge_length: "try_merge margin b ms = Some ms' \<Longrightarrow> length ms' = length ms"
  by (induction ms arbitrary: ms') (auto split: if_splits)

lemma try_merge_keeps:
  "try_merge margin b ms = Some ms' \<Longrightarrow> m \<in> set ms \<Longrightarrow> \<exists>m' \<in> set ms'. box_contains m' m"
proof (induction ms arbitrary: ms')
  case Nil
  then show ?case by simp
next
  case (Cons a ms)
  show ?case
  proof (cases "near margin b a")
    case True
    with Cons.prems have ms': "ms' = merge_pair b a # ms" by simp
    from Cons.prems(2) consider "m = a" | "m \<in> set ms" by auto
    then show ?thesis
    proof cases
      case 1
      then show ?thesis using ms' merge_pair_contains_old by auto
    next
      case 2
      then have "m \<in> set ms'" using ms' by simp
      then show ?thesis using box_contains_refl by blast
    qed
  next
    case False
    with Cons.prems obtain r where r: "try_merge margin b ms = Some r" and ms': "ms' = a # r"
      by auto
    from Cons.prems(2) consider "m = a" | "m \<in> set ms" by auto
    then show ?thesis
    proof cases
      case 1
      then have "m \<in> set ms'" using ms' by simp
      then show ?thesis using box_contains_refl by blast
    next
      case 2
      with Cons.IH [OF r] obtain m' where "m' \<in> set r" "box_contains m' m" by blast
      then show ?thesis using ms' by auto
    qed
  qed
qed

lemma try_merge_takes:
  "try_merge margin b ms = Some ms' \<Longrightarrow> \<exists>m' \<in> set ms'. box_contains m' b"
proof (induction ms arbitrary: ms')
  case Nil
  then show ?case by simp
next
  case (Cons a ms)
  show ?case
  proof (cases "near margin b a")
    case True
    with Cons.prems have "ms' = merge_pair b a # ms" by simp
    then show ?thesis using merge_pair_contains_new by auto
  next
    case False
    with Cons.prems obtain r where r: "try_merge margin b ms = Some r" and ms': "ms' = a # r"
      by auto
    from Cons.IH [OF r] show ?thesis using ms' by auto
  qed
qed

lemma merge_step_length: "length (merge_step margin ms b) \<le> Suc (length ms)"
  by (auto simp: merge_step_def try_merge_length split: option.splits)

lemma merge_step_covers:
  assumes "covers ms bs"
  shows "covers (merge_step margin ms b) (b # bs)"
proof (cases "try_merge margin b ms")
  case None
  then have eq: "merge_step margin ms b = ms @ [b]" by (simp add: merge_step_def)
  show ?thesis
    unfolding covers_def eq using assms box_contains_refl by (auto simp: covers_def)
next
  case (Some ms')
  then have eq: "merge_step margin ms b = ms'" by (simp add: merge_step_def)
  show ?thesis
    unfolding covers_def eq
  proof
    fix c assume "c \<in> set (b # bs)"
    then consider "c = b" | "c \<in> set bs" by auto
    then show "\<exists>m \<in> set ms'. box_contains m c"
    proof cases
      case 1
      then show ?thesis using try_merge_takes [OF Some] by simp
    next
      case 2
      with assms obtain m where m: "m \<in> set ms" "box_contains m c" by (auto simp: covers_def)
      from try_merge_keeps [OF Some m(1)] obtain m' where "m' \<in> set ms'" "box_contains m' m" by blast
      then show ?thesis using m(2) box_contains_trans by blast
    qed
  qed
qed

lemma foldl_merge_step_length:
  "length (foldl (merge_step margin) ms bs) \<le> length ms + length bs"
proof (induction bs arbitrary: ms)
  case Nil
  then show ?case by simp
next
  case (Cons b bs)
  have "length (foldl (merge_step margin) (merge_step margin ms b) bs)
          \<le> length (merge_step margin ms b) + length bs"
    by (rule Cons.IH)
  also have "\<dots> \<le> Suc (length ms) + length bs"
    using merge_step_length [of margin ms b] by simp
  finally show ?case by simp
qed

lemma foldl_merge_step_covers:
  "covers ms done \<Longrightarrow> covers (foldl (merge_step margin) ms bs) (bs @ done)"
proof (induction bs arbitrary: ms "done")
  case Nil
  then show ?case by simp
next
  case (Cons b bs)
  from Cons.prems have "covers (merge_step margin ms b) (b # done)"
    by (rule merge_step_covers)
  then have "covers (foldl (merge_step margin) (merge_step margin ms b) bs) (bs @ b # done)"
    by (rule Cons.IH)
  then show ?case by (auto simp: covers_def)
qed

text \<open>
  C4. For every list of boxes of positive width and height and every margin, each input
  box lies inside some box of the list that \<^verbatim>\<open>_merge_overlapping_boxes\<close> returns, and
  that list is not longer than the input: merging loses no redaction coverage.
\<close>

theorem merge_never_loses_coverage:
  assumes "\<forall>(x, y, w, h) \<in> set boxes. 0 < w \<and> 0 < h"
  shows "(\<forall>b \<in> set boxes. \<exists>m \<in> set (merge_overlapping_boxes boxes margin). box_contains m b)
         \<and> length (merge_overlapping_boxes boxes margin) \<le> length boxes"
proof (cases "boxes = []")
  case True
  then show ?thesis by (simp add: merge_overlapping_boxes_def)
next
  case False
  have "covers [] []" by (simp add: covers_def)
  then have "covers (foldl (merge_step margin) [] (sorted_boxes boxes)) (sorted_boxes boxes @ [])"
    by (rule foldl_merge_step_covers)
  then have c: "\<forall>b \<in> set boxes. \<exists>m \<in> set (merge_overlapping_boxes boxes margin). box_contains m b"
    using False by (simp add: covers_def merge_overlapping_boxes_def sorted_boxes_def)
  have l: "length (merge_overlapping_boxes boxes margin) \<le> length boxes"
    using False foldl_merge_step_length [of margin "[]" "sorted_boxes boxes"]
    by (simp add: merge_overlapping_boxes_def sorted_boxes_def)
  from c l show ?thesis by blast
qed

theorem merge_never_loses_coverage_witness:
  "list_all (\<lambda>(x, y, w, h). 0 < w \<and> 0 < h)
     ([(0, 0, 10, 10), (8, 8, 10, 10), (100, 100, 5, 5)] :: box list)
   \<and> covers (merge_overlapping_boxes [(0, 0, 10, 10), (8, 8, 10, 10), (100, 100, 5, 5)] 5)
        [(0, 0, 10, 10), (8, 8, 10, 10), (100, 100, 5, 5)]
   \<and> length (merge_overlapping_boxes [(0, 0, 10, 10), (8, 8, 10, 10), (100, 100, 5, 5)] 5) \<le> 3"
proof -
  have h: "\<forall>(x, y, w, h) \<in> set ([(0, 0, 10, 10), (8, 8, 10, 10), (100, 100, 5, 5)] :: box list).
             0 < w \<and> 0 < h"
    by simp
  from merge_never_loses_coverage [OF h, of 5] show ?thesis
    unfolding covers_def by simp
qed

text \<open>
  C7. Merging the rectangles (0,0,10,10), (8,8,10,10) and (100,100,5,5) with margin 5
  gives exactly two rectangles, (0,0,18,18), which spans (0,0) to (18,18), and
  (100,100,5,5) unchanged; the order in which the three are given does not matter.
\<close>

theorem merge_example:
  "merge_overlapping_boxes [(0, 0, 10, 10), (8, 8, 10, 10), (100, 100, 5, 5)] 5
     = [(0, 0, 18, 18), (100, 100, 5, 5)]
   \<and> merge_overlapping_boxes [(0, 0, 10, 10), (100, 100, 5, 5), (8, 8, 10, 10)] 5
     = [(0, 0, 18, 18), (100, 100, 5, 5)]
   \<and> merge_overlapping_boxes [(8, 8, 10, 10), (0, 0, 10, 10), (100, 100, 5, 5)] 5
     = [(0, 0, 18, 18), (100, 100, 5, 5)]
   \<and> merge_overlapping_boxes [(8, 8, 10, 10), (100, 100, 5, 5), (0, 0, 10, 10)] 5
     = [(0, 0, 18, 18), (100, 100, 5, 5)]
   \<and> merge_overlapping_boxes [(100, 100, 5, 5), (0, 0, 10, 10), (8, 8, 10, 10)] 5
     = [(0, 0, 18, 18), (100, 100, 5, 5)]
   \<and> merge_overlapping_boxes [(100, 100, 5, 5), (8, 8, 10, 10), (0, 0, 10, 10)] 5
     = [(0, 0, 18, 18), (100, 100, 5, 5)]"
  by (simp add: merge_overlapping_boxes_def sorted_boxes_def merge_step_def)

subsection \<open>No detection\<close>

lemma merged_boxes_None: "merged_boxes None = []"
  by (simp add: merged_boxes_def collect_boxes_def)

lemma merged_boxes_Nil: "merged_boxes (Some []) = []"
  by (simp add: merged_boxes_def collect_boxes_def List.map_filter_simps)

text \<open>
  C8. When the detection sequence is empty or \<^verbatim>\<open>None\<close>, the redacted image is the input
  image, sample for sample, and the extracted text is the string
  \<^verbatim>\<open>(No text detected)\<close>.
\<close>

theorem no_detection_pass_through:
  "redact_text_regions img None padding = img
   \<and> redact_text_regions img (Some []) padding = img
   \<and> extracted_text None = ''(No text detected)''
   \<and> extracted_text (Some []) = ''(No text detected)''"
  by (cases img) (simp_all add: merged_boxes_None merged_boxes_Nil paint_all_def extracted_text_def)

subsection \<open>Redaction\<close>

lemma length_assign_slice: "length (assign_slice s e f xs) = length xs"
  by (simp add: assign_slice_def)

lemma nth_assign_slice:
  "i < length xs \<Longrightarrow>
   assign_slice s e f xs ! i = (if s \<le> i \<and> i < e then f (xs ! i) else xs ! i)"
  by (simp add: assign_slice_def nth_enumerate_eq)

lemma length_paint: "length (paint v p rows cols redacted b) = length redacted"
  by (cases b) (simp add: fill_region_def length_assign_slice Let_def)

lemma length_row_paint:
  "r < length redacted \<Longrightarrow> length (paint v p rows cols redacted b ! r) = length (redacted ! r)"
  by (cases b) (simp add: fill_region_def nth_assign_slice length_assign_slice Let_def)

lemma nth_paint:
  assumes "length redacted = rows" and "r < rows" and "c < length (redacted ! r)"
  shows "paint v p rows cols redacted b ! r ! c =
           (if written p rows cols (length (redacted ! r)) b r c then v else redacted ! r ! c)"
  using assms
  by (cases b) (simp add: fill_region_def nth_assign_slice length_assign_slice written_def Let_def)

lemma foldl_paint:
  assumes "length redacted = rows"
  shows "length (foldl (paint v p rows cols) redacted bs) = rows
         \<and> (\<forall>r < rows. length (foldl (paint v p rows cols) redacted bs ! r) = length (redacted ! r)
              \<and> (\<forall>c < length (redacted ! r).
                    foldl (paint v p rows cols) redacted bs ! r ! c =
                      (if \<exists>b \<in> set bs. written p rows cols (length (redacted ! r)) b r c
                       then v else redacted ! r ! c)))"
  using assms
proof (induction bs arbitrary: redacted)
  case Nil
  then show ?case by simp
next
  case (Cons b bs)
  let ?step = "paint v p rows cols redacted b"
  have len: "length ?step = rows" using Cons.prems by (simp add: length_paint)
  note IH = Cons.IH [OF len]
  show ?case
  proof (intro conjI allI impI)
    show "length (foldl (paint v p rows cols) redacted (b # bs)) = rows"
      using IH by simp
  next
    fix r assume r: "r < rows"
    have lr: "length (?step ! r) = length (redacted ! r)"
      using r Cons.prems by (simp add: length_row_paint)
    show "length (foldl (paint v p rows cols) redacted (b # bs) ! r) = length (redacted ! r)"
      using IH r lr by simp
  next
    fix r c assume r: "r < rows" and c: "c < length (redacted ! r)"
    have lr: "length (?step ! r) = length (redacted ! r)"
      using r Cons.prems by (simp add: length_row_paint)
    have "foldl (paint v p rows cols) redacted (b # bs) ! r ! c =
            (if \<exists>b' \<in> set bs. written p rows cols (length (redacted ! r)) b' r c
             then v else ?step ! r ! c)"
      using IH r c lr by simp
    also have "?step ! r ! c =
            (if written p rows cols (length (redacted ! r)) b r c then v else redacted ! r ! c)"
      using nth_paint [OF Cons.prems r c] .
    finally show "foldl (paint v p rows cols) redacted (b # bs) ! r ! c =
            (if \<exists>b' \<in> set (b # bs). written p rows cols (length (redacted ! r)) b' r c
             then v else redacted ! r ! c)"
      by auto
  qed
qed

lemma length_paint_all: "length (paint_all v p bs img) = length img"
  using foldl_paint [of img "length img" v p "shape1 img" bs] by (simp add: paint_all_def)

lemma length_row_paint_all:
  "r < length img \<Longrightarrow> length (paint_all v p bs img ! r) = length (img ! r)"
  using foldl_paint [of img "length img" v p "shape1 img" bs] by (simp add: paint_all_def)

lemma nth_paint_all:
  "r < length img \<Longrightarrow> c < length (img ! r) \<Longrightarrow>
   paint_all v p bs img ! r ! c =
     (if \<exists>b \<in> set bs. written p (length img) (shape1 img) (length (img ! r)) b r c
      then v else img ! r ! c)"
  using foldl_paint [of img "length img" v p "shape1 img" bs] by (simp add: paint_all_def)

lemma shape1_nth: "shape1 img = (if img = [] then 0 else length (img ! 0))"
  by (cases img) (simp_all add: shape1_def)

lemma shape1_paint_all: "shape1 (paint_all v p bs img) = shape1 img"
proof (cases "img = []")
  case True
  then have "paint_all v p bs img = []"
    using length_paint_all [of v p bs img] by simp
  then show ?thesis using True by simp
next
  case False
  then have "0 < length img" by simp
  moreover have "paint_all v p bs img \<noteq> []"
    using False length_paint_all [of v p bs img] by auto
  ultimately show ?thesis
    using False by (simp add: shape1_nth length_row_paint_all)
qed

lemma paint_all_idem: "paint_all v p bs (paint_all v p bs img) = paint_all v p bs img"
proof (rule nth_equalityI)
  show "length (paint_all v p bs (paint_all v p bs img)) = length (paint_all v p bs img)"
    by (simp add: length_paint_all)
next
  fix r assume "r < length (paint_all v p bs (paint_all v p bs img))"
  then have r: "r < length img" by (simp add: length_paint_all)
  show "paint_all v p bs (paint_all v p bs img) ! r = paint_all v p bs img ! r"
  proof (rule nth_equalityI)
    show "length (paint_all v p bs (paint_all v p bs img) ! r) = length (paint_all v p bs img ! r)"
      using r by (simp add: length_row_paint_all length_paint_all)
  next
    fix c assume "c < length (paint_all v p bs (paint_all v p bs img) ! r)"
    then have c: "c < length (img ! r)"
      using r by (simp add: length_row_paint_all length_paint_all)
    show "paint_all v p bs (paint_all v p bs img) ! r ! c = paint_all v p bs img ! r ! c"
      using r c
      by (simp add: nth_paint_all length_paint_all length_row_paint_all shape1_paint_all)
  qed
qed

lemma paint_all_keeps_shape: "map length (paint_all v p bs img) = map length img"
  by (rule nth_equalityI) (simp_all add: length_paint_all length_row_paint_all)

text \<open>
  The median of a list of odd length is its middle element in sorted order, and it does
  not move when elements of the list are replaced by it: at most half of the elements
  lie below it and at most half above it, before and after.
\<close>

lemma length_filter_sort: "length (filter P (sort xs)) = length (filter P xs)"
proof (induction xs)
  case Nil
  then show ?case by simp
next
  case (Cons x xs)
  have "length (filter P (insort x ys)) = length (filter P (x # ys))" for ys
    by (induction ys) auto
  then show ?case using Cons by simp
qed

lemma sorted_filter_below:
  assumes "sorted s" and "k < length s"
  shows "length (filter (\<lambda>x. x < s ! k) s) \<le> k"
proof -
  have "filter (\<lambda>x. x < s ! k) (drop k s) = []"
  proof -
    have "\<not> x < s ! k" if "x \<in> set (drop k s)" for x
    proof -
      from that obtain i where "i < length (drop k s)" "x = drop k s ! i"
        by (auto simp: in_set_conv_nth)
      then have "x = s ! (k + i)" "k + i < length s" by auto
      then have "s ! k \<le> x" using assms(1) by (simp add: sorted_nth_mono)
      then show ?thesis by simp
    qed
    then show ?thesis by (simp add: filter_empty_conv)
  qed
  then have "filter (\<lambda>x. x < s ! k) s = filter (\<lambda>x. x < s ! k) (take k s)"
    by (metis append_Nil2 append_take_drop_id filter_append)
  then have "length (filter (\<lambda>x. x < s ! k) s) \<le> length (take k s)"
    by (metis length_filter_le)
  then show ?thesis by simp
qed

lemma sorted_filter_above:
  assumes "sorted s" and "k < length s"
  shows "length (filter (\<lambda>x. s ! k < x) s) \<le> length s - Suc k"
proof -
  have "filter (\<lambda>x. s ! k < x) (take (Suc k) s) = []"
  proof -
    have "\<not> s ! k < x" if "x \<in> set (take (Suc k) s)" for x
    proof -
      from that obtain i where "i < length (take (Suc k) s)" "x = take (Suc k) s ! i"
        by (auto simp: in_set_conv_nth)
      then have "x = s ! i" "i \<le> k" by auto
      then have "x \<le> s ! k" using assms by (simp add: sorted_nth_mono)
      then show ?thesis by simp
    qed
    then show ?thesis by (simp add: filter_empty_conv)
  qed
  then have "filter (\<lambda>x. s ! k < x) s = filter (\<lambda>x. s ! k < x) (drop (Suc k) s)"
    by (metis append_Nil append_take_drop_id filter_append)
  then have "length (filter (\<lambda>x. s ! k < x) s) \<le> length (drop (Suc k) s)"
    by (metis length_filter_le)
  then show ?thesis by simp
qed

lemma sorted_middle_unique:
  assumes "sorted s" and "length s = Suc (2 * k)"
    and "length (filter (\<lambda>x. x < m) s) \<le> k" and "length (filter (\<lambda>x. m < x) s) \<le> k"
  shows "s ! k = m"
proof (rule ccontr)
  assume ne: "s ! k \<noteq> m"
  have k: "k < length s" using assms(2) by simp
  show False
  proof (cases "s ! k < m")
    case True
    have "filter (\<lambda>x. x < m) (take (Suc k) s) = take (Suc k) s"
    proof -
      have "x < m" if "x \<in> set (take (Suc k) s)" for x
      proof -
        from that obtain i where "i < length (take (Suc k) s)" "x = take (Suc k) s ! i"
          by (auto simp: in_set_conv_nth)
        then have "x = s ! i" "i \<le> k" by auto
        then have "x \<le> s ! k" using assms(1) k by (simp add: sorted_nth_mono)
        then show ?thesis using True by simp
      qed
      then show ?thesis by (simp add: filter_id_conv)
    qed
    then have "length (filter (\<lambda>x. x < m) s) \<ge> length (take (Suc k) s)"
      by (metis append_take_drop_id filter_append length_append le_add1)
    then show False using assms(3) k by simp
  next
    case False
    with ne have gt: "m < s ! k" by simp
    have "filter (\<lambda>x. m < x) (drop k s) = drop k s"
    proof -
      have "m < x" if "x \<in> set (drop k s)" for x
      proof -
        from that obtain i where "i < length (drop k s)" "x = drop k s ! i"
          by (auto simp: in_set_conv_nth)
        then have "x = s ! (k + i)" "k + i < length s" by auto
        then have "s ! k \<le> x" using assms(1) by (simp add: sorted_nth_mono)
        then show ?thesis using gt by simp
      qed
      then show ?thesis by (simp add: filter_id_conv)
    qed
    then have "length (filter (\<lambda>x. m < x) s) \<ge> length (drop k s)"
      by (metis append_take_drop_id filter_append length_append le_add2)
    then show False using assms(2,4) by simp
  qed
qed

lemma filter_length_replaced:
  assumes "list_all2 (\<lambda>y x. y = v \<or> y = x) ys xs" and "\<not> P v"
  shows "length (filter P ys) \<le> length (filter P xs)"
  using assms by (induction rule: list_all2_induct) auto

lemma odd_median_replaced:
  assumes "list_all2 (\<lambda>y x. y = sort xs ! (length xs div 2) \<or> y = x) ys xs"
    and "odd (length xs)"
  shows "sort ys ! (length ys div 2) = sort xs ! (length xs div 2)"
proof -
  let ?k = "length xs div 2"
  let ?m = "sort xs ! ?k"
  have len: "length ys = length xs" using assms(1) by (rule list_all2_lengthD)
  have n: "length xs = Suc (2 * ?k)" using assms(2) by (auto elim: oddE)
  have k: "?k < length (sort xs)" using n by simp
  have "length (filter (\<lambda>x. x < ?m) (sort xs)) \<le> ?k"
    using sorted_filter_below [of "sort xs" ?k] k by simp
  then have below: "length (filter (\<lambda>x. x < ?m) xs) \<le> ?k"
    by (simp add: length_filter_sort)
  have "length (filter (\<lambda>x. ?m < x) (sort xs)) \<le> length (sort xs) - Suc ?k"
    using sorted_filter_above [of "sort xs" ?k] k by simp
  then have above: "length (filter (\<lambda>x. ?m < x) xs) \<le> ?k"
    using n by (simp add: length_filter_sort)
  have b': "length (filter (\<lambda>x. x < ?m) (sort ys)) \<le> ?k"
    using filter_length_replaced [OF assms(1), of "\<lambda>x. x < ?m"] below
    by (simp add: length_filter_sort)
  have a': "length (filter (\<lambda>x. ?m < x) (sort ys)) \<le> ?k"
    using filter_length_replaced [OF assms(1), of "\<lambda>x. ?m < x"] above
    by (simp add: length_filter_sort)
  have "sort ys ! ?k = ?m"
    using sorted_middle_unique [of "sort ys" ?k ?m] b' a' n len by simp
  then show ?thesis using len by simp
qed


lemma np_median_odd:
  "odd (length xs) \<Longrightarrow> np_median xs = of_nat (sort xs ! (length xs div 2))"
  by (cases "length xs = 0") (simp_all add: np_median_def Let_def)

lemma gray_median_odd:
  "odd (length (concat g)) \<Longrightarrow> gray_median g = sort (concat g) ! (length (concat g) div 2)"
  by (simp add: gray_median_def np_median_odd trunc_def)

lemma paint_all_replaces:
  "list_all2 (\<lambda>y x. y = v \<or> y = x) (concat (paint_all v p bs img)) (concat img)"
proof -
  have "list_all2 (list_all2 (\<lambda>y x. y = v \<or> y = x)) (paint_all v p bs img) img"
    by (simp add: list_all2_conv_all_nth length_paint_all length_row_paint_all nth_paint_all)
  then show ?thesis
    using concat_transfer [THEN rel_funD] by blast
qed

lemma gray_median_paint_all_odd:
  assumes "odd (length (concat g))"
  shows "gray_median (paint_all (gray_median g) p bs g) = gray_median g"
proof -
  let ?xs = "concat g"
  let ?ys = "concat (paint_all (gray_median g) p bs g)"
  have m: "gray_median g = sort ?xs ! (length ?xs div 2)"
    using assms by (rule gray_median_odd)
  have rel: "list_all2 (\<lambda>y x. y = sort ?xs ! (length ?xs div 2) \<or> y = x) ?ys ?xs"
    using paint_all_replaces [of "gray_median g" p bs g] by (simp add: m)
  then have len: "length ?ys = length ?xs" by (rule list_all2_lengthD)
  have "sort ?ys ! (length ?ys div 2) = sort ?xs ! (length ?xs div 2)"
    using rel assms by (rule odd_median_replaced)
  moreover have "gray_median (paint_all (gray_median g) p bs g) = sort ?ys ! (length ?ys div 2)"
    using assms len by (simp add: gray_median_odd)
  ultimately show ?thesis using m by simp
qed

text \<open>
  C5 does not hold as stated: the fill value is the median of the image that is passed
  in, and the median of a redacted image can differ from that of the original. The
  one-row image 0, 10, 20, 30 has median 15; with one detection over its first pixel
  and padding 0 the redacted image is 15, 10, 20, 30, whose median is 17.5, so a second
  redaction writes 17 over the 15.
\<close>

theorem redaction_not_idempotent:
  "redact_text_regions (Gray [[0, 10, 20, 30]])
     (Some [(Points [(0, 0), (1, 0), (1, 1), (0, 1)], ''A'', 1)]) 0
     = Gray [[15, 10, 20, 30]]
   \<and> redact_text_regions
       (redact_text_regions (Gray [[0, 10, 20, 30]])
          (Some [(Points [(0, 0), (1, 0), (1, 1), (0, 1)], ''A'', 1)]) 0)
       (Some [(Points [(0, 0), (1, 0), (1, 1), (0, 1)], ''A'', 1)]) 0
     = Gray [[17, 10, 20, 30]]"
  by code_simp

text \<open>
  C5, as the code has it. Painting the same boxes twice with one fill colour is the same
  as painting them once (\<open>paint_all_idem\<close>). So redacting a redacted image again with
  the same detections and padding changes nothing whenever the fill colour computed
  from the redacted image equals the one computed from the original image; and this is
  so for every grayscale image with an odd number of pixels.
\<close>

theorem redaction_idempotent_when_fill_is_stable:
  "(median_val (redact_text_regions img detections padding) = median_val img \<longrightarrow>
      redact_text_regions (redact_text_regions img detections padding) detections padding
        = redact_text_regions img detections padding)
   \<and> (odd (length (concat g)) \<longrightarrow>
      redact_text_regions (redact_text_regions (Gray g) detections padding) detections padding
        = redact_text_regions (Gray g) detections padding)"
proof (intro conjI impI)
  assume eq: "median_val (redact_text_regions img detections padding) = median_val img"
  show "redact_text_regions (redact_text_regions img detections padding) detections padding
          = redact_text_regions img detections padding"
  proof (cases img)
    case (Gray a)
    with eq have "gray_median (paint_all (gray_median a) padding (merged_boxes detections) a)
                    = gray_median a"
      by simp
    then show ?thesis using Gray by (simp add: paint_all_idem)
  next
    case (Color c)
    with eq have "color_median (paint_all (color_median c) padding (merged_boxes detections) c)
                    = color_median c"
      by simp
    then show ?thesis using Color by (simp add: paint_all_idem)
  qed
next
  assume "odd (length (concat g))"
  then have "gray_median (paint_all (gray_median g) padding (merged_boxes detections) g)
               = gray_median g"
    by (rule gray_median_paint_all_odd)
  then show "redact_text_regions (redact_text_regions (Gray g) detections padding) detections padding
               = redact_text_regions (Gray g) detections padding"
    by (simp add: paint_all_idem)
qed

theorem redaction_idempotent_when_fill_is_stable_witness:
  "median_val (redact_text_regions (Gray [[0, 10, 10, 20]])
       (Some [(Points [(0, 0), (1, 0), (1, 1), (0, 1)], ''A'', 1)]) 0)
     = median_val (Gray [[0, 10, 10, 20]])
   \<and> redact_text_regions (redact_text_regions (Gray [[0, 10, 10, 20]])
         (Some [(Points [(0, 0), (1, 0), (1, 1), (0, 1)], ''A'', 1)]) 0)
       (Some [(Points [(0, 0), (1, 0), (1, 1), (0, 1)], ''A'', 1)]) 0
     = redact_text_regions (Gray [[0, 10, 10, 20]])
         (Some [(Points [(0, 0), (1, 0), (1, 1), (0, 1)], ''A'', 1)]) 0
   \<and> odd (length (concat [[0, 10, 20 :: nat]]))
   \<and> redact_text_regions (redact_text_regions (Gray [[0, 10, 20]])
         (Some [(Points [(0, 0), (1, 0), (1, 1), (0, 1)], ''A'', 1)]) 0)
       (Some [(Points [(0, 0), (1, 0), (1, 1), (0, 1)], ''A'', 1)]) 0
     = redact_text_regions (Gray [[0, 10, 20]])
         (Some [(Points [(0, 0), (1, 0), (1, 1), (0, 1)], ''A'', 1)]) 0"
proof -
  have a: "median_val (redact_text_regions (Gray [[0, 10, 10, 20]])
       (Some [(Points [(0, 0), (1, 0), (1, 1), (0, 1)], ''A'', 1)]) 0)
     = median_val (Gray [[0, 10, 10, 20]])"
    by code_simp
  have b: "odd (length (concat [[0, 10, 20 :: nat]]))" by simp
  from redaction_idempotent_when_fill_is_stable
         [of "Gray [[0, 10, 10, 20]]"
             "Some [(Points [(0, 0), (1, 0), (1, 1), (0, 1)], ''A'', 1)]" 0 "[[0, 10, 20]]"] a b
  show ?thesis by blast
qed

text \<open>
  The two parts of C6 that hold on the code: redaction keeps the shape of the image
  (\<open>paint_all_keeps_shape\<close>), and when every merged box ends at or after row 0 and
  column 0 once the padding is added, a pixel outside all padded boxes keeps its value
  (\<open>paint_all_frame\<close>).
\<close>

lemma written_in_padded_box:
  assumes "written padding rows cols row_len (x, y, w, h) r c"
    and "0 \<le> x + w + padding" and "0 \<le> y + h + padding"
  shows "in_padded_box padding (x, y, w, h) r c"
proof -
  from assms(1) have
    a: "slice_index rows (max 0 (y - padding)) \<le> r"
    and b: "r < slice_index rows (min (int rows) (y + h + padding))"
    and c: "slice_index row_len (max 0 (x - padding)) \<le> c"
    and d: "c < slice_index row_len (min (int cols) (x + w + padding))"
    by (simp_all add: written_def)
  from b assms(3) have r_lt: "r < rows" "int r < y + h + padding"
    by (auto simp: slice_index_def split: if_splits)
  from d assms(2) have c_lt: "c < row_len" "int c < x + w + padding"
    by (auto simp: slice_index_def split: if_splits)
  from a r_lt(1) have r_ge: "y - padding \<le> int r"
    by (auto simp: slice_index_def split: if_splits)
  from c c_lt(1) have c_ge: "x - padding \<le> int c"
    by (auto simp: slice_index_def split: if_splits)
  from r_lt c_lt r_ge c_ge show ?thesis by (simp add: in_padded_box_def)
qed

lemma paint_all_frame:
  assumes "r < length img" and "c < length (img ! r)"
    and "\<forall>(x, y, w, h) \<in> set bs. 0 \<le> x + w + padding \<and> 0 \<le> y + h + padding"
    and "\<forall>b \<in> set bs. \<not> in_padded_box padding b r c"
  shows "paint_all v padding bs img ! r ! c = img ! r ! c"
proof -
  have "\<not> written padding (length img) (shape1 img) (length (img ! r)) b r c" if "b \<in> set bs" for b
  proof -
    obtain x y w h where b: "b = (x, y, w, h)" by (cases b)
    with that assms(3) have "0 \<le> x + w + padding" "0 \<le> y + h + padding" by auto
    with written_in_padded_box [of padding _ _ _ x y w h r c] assms(4) that b
    show ?thesis by blast
  qed
  then show ?thesis using assms(1,2) by (simp add: nth_paint_all)
qed

text \<open>
  C6 fails on the code where a padded box ends before column 0 (or row 0): the stop
  bound of the slice is then negative, and a negative bound counts from the end of the
  axis. A detection over the columns -8 to -7 gives the box (-8, 0, 1, 1); with padding
  5 it ends at column -2, the slice of columns is \<^verbatim>\<open>0:-2\<close>, and the first two pixels of
  a row of four are overwritten although neither lies in the padded box.
\<close>

theorem redaction_wraps_negative_stop:
  "redact_text_regions (Gray [[0, 10, 20, 30]])
     (Some [(Points [(- 8, 0), (- 7, 0), (- 7, 1), (- 8, 1)], ''A'', 1)]) 5 = Gray [[15, 15, 20, 30]]
   \<and> merged_boxes (Some [(Points [(- 8, 0), (- 7, 0), (- 7, 1), (- 8, 1)], ''A'', 1)]) = [(- 8, 0, 1, 1)]
   \<and> \<not> in_padded_box 5 (- 8, 0, 1, 1) 0 0 \<and> \<not> in_padded_box 5 (- 8, 0, 1, 1) 0 1"
  by code_simp

end
